theory Spec2Isabelle
  imports Main
begin

section \<open>Strings of the scraper\<close>

text \<open>
  The scraper is a JavaScript program. A JavaScript string is modelled as a \<open>string\<close>, one
  \<open>char\<close> per code unit; the development covers the code units up to \<open>0xFF\<close>, which
  contain every character the program tests for: the slash, the space, the tab, the line
  feed, the carriage return and the no-break space \<open>U+00A0\<close>.
\<close>

abbreviation nl :: char where "nl \<equiv> CHR 0x0A"
abbreviation cr :: char where "cr \<equiv> CHR 0x0D"
abbreviation tab :: char where "tab \<equiv> CHR 0x09"
abbreviation nbsp :: char where "nbsp \<equiv> CHR 0xA0"

text \<open>\<^verbatim>\<open>'#'.repeat(level)\<close>\<close>

definition repeat :: "string \<Rightarrow> nat \<Rightarrow> string" where
  "repeat s n = concat (replicate n s)"

text \<open>\<^verbatim>\<open>arr[i]\<close> on a JavaScript array: \<open>undefined\<close> (here \<open>None\<close>) out of range.\<close>

fun index :: "'a list \<Rightarrow> nat \<Rightarrow> 'a option" where
  "index [] i = None"
| "index (x # xs) 0 = Some x"
| "index (x # xs) (Suc i) = index xs i"

text \<open>\<^verbatim>\<open>s.split('/')\<close>: every separator ends a segment, empty segments are kept.\<close>

fun split :: "char \<Rightarrow> string \<Rightarrow> string list" where
  "split sep [] = [[]]"
| "split sep (c # cs) =
     (if c = sep then [] # split sep cs
      else (case split sep cs of [] \<Rightarrow> [[c]] | w # ws \<Rightarrow> (c # w) # ws))"

text \<open>\<^verbatim>\<open>arr.join(sep)\<close>\<close>

fun join :: "string \<Rightarrow> string list \<Rightarrow> string" where
  "join sep [] = []"
| "join sep [x] = x"
| "join sep (x # y # ys) = x @ sep @ join sep (y # ys)"

text \<open>The decimal text of a number in a template literal, \<^verbatim>\<open>`${idx + 1}`\<close>.\<close>

function toString :: "nat \<Rightarrow> string" where
  "toString n =
     (if n < 10 then [''0123456789'' ! n]
      else toString (n div 10) @ [''0123456789'' ! (n mod 10)])"
  by pat_completeness auto
termination
  by (relation "measure (\<lambda>n. n)") auto

declare toString.simps [simp del]

section \<open>Data model\<close>

text \<open>
  A story of \<^verbatim>\<open>stories.json\<close>. The fields \<^verbatim>\<open>name\<close> and \<^verbatim>\<open>title\<close> may be missing
  (\<open>None\<close> is JavaScript's \<open>undefined\<close>); \<^verbatim>\<open>id\<close> is always a string.
\<close>

record story =
  story_id :: string
  name :: "string option"
  title :: "string option"

record codeBlock =
  language :: string
  code :: string

record table =
  headers :: "string list"
  rows :: "string list list"

record content =
  codeBlocks :: "codeBlock list"
  tables :: "table list"

section \<open>buildMarkdownForStory\<close>

text \<open>\<^verbatim>\<open>(story.title || '').split('/').filter(Boolean)\<close>\<close>

definition titleParts :: "story \<Rightarrow> string list" where
  "titleParts s =
     filter (\<lambda>p. p \<noteq> []) (split CHR ''/'' (case title s of None \<Rightarrow> [] | Some t \<Rightarrow> t))"

text \<open>\<^verbatim>\<open>story.name || story.id\<close>: a missing name and an empty name are both falsy.\<close>

definition storyName :: "story \<Rightarrow> string" where
  "storyName s =
     (case name s of None \<Rightarrow> story_id s | Some n \<Rightarrow> if n \<noteq> [] then n else story_id s)"

text \<open>
  The loop over the title parts,
  \<^verbatim>\<open>for (let i = 0; i < titleParts.length; i++) if (titleParts[i] !== lastTitleParts[i]) ...\<close>.
  A title part is a string, so it differs from \<open>undefined\<close>.
\<close>

function titleLoop :: "string list \<Rightarrow> string list \<Rightarrow> nat \<Rightarrow> string \<Rightarrow> string" where
  "titleLoop tps lastTitleParts i md =
     (if i < length tps then
        titleLoop tps lastTitleParts (i + 1)
          (if Some (tps ! i) \<noteq> index lastTitleParts i
           then md @ repeat ''#'' (i + 1) @ '' '' @ tps ! i @ [nl, nl]
           else md)
      else md)"
  by pat_completeness auto
termination
  by (relation "measure (\<lambda>(tps, lastTitleParts, i, md). length tps - i)") auto

declare titleLoop.simps [simp del]

text \<open>The callback of \<^verbatim>\<open>codeBlocks.forEach((block, idx) => ...)\<close>, block after block.\<close>

fun codeForEach :: "nat \<Rightarrow> codeBlock list \<Rightarrow> nat \<Rightarrow> string \<Rightarrow> string" where
  "codeForEach storyHeadingLevel [] idx md = md"
| "codeForEach storyHeadingLevel (block # rest) idx md =
     codeForEach storyHeadingLevel rest (idx + 1)
       (md @ repeat ''#'' (storyHeadingLevel + 1) @ '' Code example '' @ toString (idx + 1)
           @ [nl, nl]
           @ ''```'' @ language block @ [nl]
           @ code block @ [nl]
           @ ''```'' @ [nl, nl])"

text \<open>
  \<^verbatim>\<open>table.headers.length > 0 ? table.headers : table.rows[0]?.map((_, i) => `Column ${i + 1}`) || []\<close>
\<close>

definition tableHeaders :: "table \<Rightarrow> string list" where
  "tableHeaders t =
     (if length (headers t) > 0 then headers t
      else (case rows t of
              [] \<Rightarrow> []
            | r # _ \<Rightarrow> map (\<lambda>i. ''Column '' @ toString (i + 1)) [0..<length r]))"

text \<open>\<^verbatim>\<open>while (paddedRow.length < headers.length) paddedRow.push('')\<close>\<close>

function padLoop :: "string list \<Rightarrow> nat \<Rightarrow> string list" where
  "padLoop paddedRow n = (if length paddedRow < n then padLoop (paddedRow @ [[]]) n else paddedRow)"
  by pat_completeness auto
termination
  by (relation "measure (\<lambda>(paddedRow, n). n - length paddedRow)") auto

declare padLoop.simps [simp del]

text \<open>\<^verbatim>\<open>for (const row of table.rows) ...\<close>\<close>

fun rowsLoop :: "nat \<Rightarrow> string list list \<Rightarrow> string \<Rightarrow> string" where
  "rowsLoop n [] md = md"
| "rowsLoop n (row # rest) md =
     rowsLoop n rest (md @ ''| '' @ join '' | '' (padLoop row n) @ '' |'' @ [nl])"

text \<open>
  The callback of \<^verbatim>\<open>tables.forEach((table, idx) => ...)\<close>: the heading is appended first,
  then \<^verbatim>\<open>if (headers.length === 0) return;\<close> leaves the callback.
\<close>

definition tableCallback :: "nat \<Rightarrow> table \<Rightarrow> nat \<Rightarrow> string \<Rightarrow> string" where
  "tableCallback storyHeadingLevel t idx md =
     (let md1 = md @ repeat ''#'' (storyHeadingLevel + 1) @ '' Props table '' @ toString (idx + 1)
                   @ [nl, nl];
          hs = tableHeaders t
      in if length hs = 0 then md1
         else
           (let md2 = md1 @ ''| '' @ join '' | '' hs @ '' |'' @ [nl];
                md3 = md2 @ ''| '' @ join '' | '' (map (\<lambda>_. ''---'') hs) @ '' |'' @ [nl];
                md4 = rowsLoop (length hs) (rows t) md3
            in md4 @ [nl]))"

fun tableForEach :: "nat \<Rightarrow> table list \<Rightarrow> nat \<Rightarrow> string \<Rightarrow> string" where
  "tableForEach storyHeadingLevel [] idx md = md"
| "tableForEach storyHeadingLevel (t # rest) idx md =
     tableForEach storyHeadingLevel rest (idx + 1) (tableCallback storyHeadingLevel t idx md)"

definition buildMarkdownForStory :: "story \<Rightarrow> content \<Rightarrow> string list \<Rightarrow> string" where
  "buildMarkdownForStory s c lastTitleParts =
     (let tps = titleParts s;
          md1 = titleLoop tps lastTitleParts 0 [];
          storyHeadingLevel = length tps + 1;
          md2 = md1 @ repeat ''#'' storyHeadingLevel @ '' '' @ storyName s @ [nl, nl];
          md3 = (if length (codeBlocks c) > 0
                 then codeForEach storyHeadingLevel (codeBlocks c) 0 md2 else md2);
          md4 = (if length (tables c) > 0
                 then tableForEach storyHeadingLevel (tables c) 0 md3 else md3)
      in md4)"

section \<open>The loop over the stories in main\<close>

text \<open>
  What \<^verbatim>\<open>page.goto\<close> and the two \<^verbatim>\<open>page.evaluate\<close> calls do for one story is an input of
  the model: either \<^verbatim>\<open>page.goto\<close> throws (a timeout, a network error), or the page is
  loaded and \<^verbatim>\<open>page.evaluate\<close> returns the content.
\<close>

datatype outcome = GotoFailed | Loaded content

text \<open>
  \<open>TypeError\<close>: \<^verbatim>\<open>story.title.split('/')\<close> reads \<^verbatim>\<open>split\<close> of \<open>undefined\<close>. The other
  errors are the three \<^verbatim>\<open>process.exit(1)\<close> of \<^verbatim>\<open>main\<close>.
\<close>

datatype error = Usage | FetchFailed | NoStories | TypeError

text \<open>
  One iteration of \<^verbatim>\<open>for (let index = 0; index < stories.length; index++)\<close> per list
  element; the state is \<^verbatim>\<open>markdown\<close> and \<^verbatim>\<open>lastTitleParts\<close>. The \<^verbatim>\<open>catch\<close> around
  \<^verbatim>\<open>page.goto\<close> ends the iteration with \<^verbatim>\<open>continue\<close>.
\<close>

fun storyLoop :: "(story \<times> outcome) list \<Rightarrow> string \<Rightarrow> string list \<Rightarrow> error + string \<times> string list" where
  "storyLoop [] markdown lastTitleParts = Inr (markdown, lastTitleParts)"
| "storyLoop ((s, GotoFailed) # rest) markdown lastTitleParts =
     storyLoop rest markdown lastTitleParts"
| "storyLoop ((s, Loaded c) # rest) markdown lastTitleParts =
     (let markdown1 = markdown @ buildMarkdownForStory s c lastTitleParts
      in case title s of
           None \<Rightarrow> Inl TypeError
         | Some t \<Rightarrow> storyLoop rest markdown1 (split CHR ''/'' t))"

text \<open>\<^verbatim>\<open>(process.argv[2] || '').replace(/\/$/, '')\<close>\<close>

definition stripSlash :: "string \<Rightarrow> string" where
  "stripSlash s = (if s \<noteq> [] \<and> last s = CHR ''/'' then butlast s else s)"

text \<open>
  \<^verbatim>\<open>main\<close>, from the command line argument and the fetched manifest (\<open>None\<close> when the
  response is not ok) to the text written to the output file.
\<close>

definition main :: "string \<Rightarrow> (story \<times> outcome) list option \<Rightarrow> error + string" where
  "main argv2 manifest =
     (let baseUrl = stripSlash argv2
      in if baseUrl = [] then Inl Usage
         else (case manifest of
                 None \<Rightarrow> Inl FetchFailed
               | Some stories \<Rightarrow>
                   if length stories = 0 then Inl NoStories
                   else (case storyLoop stories
                                (''# Storybook export'' @ [nl, nl] @ ''From: '' @ baseUrl @ [nl, nl]) [] of
                           Inl e \<Rightarrow> Inl e
                         | Inr (markdown, lastTitleParts) \<Rightarrow> Inr markdown)))"

section \<open>The extraction of the code blocks\<close>

text \<open>
  A DOM element as the extraction reads it: its identity, its \<^verbatim>\<open>textContent\<close>, its
  \<^verbatim>\<open>data-language\<close> attribute (\<open>None\<close> when missing) and its \<^verbatim>\<open>className\<close>.
\<close>

record element =
  node :: nat
  textContent :: string
  dataLanguage :: "string option"
  className :: string

subsection \<open>normalizeCode\<close>

text \<open>\<^verbatim>\<open>s.replace(/\u00A0/g, ' ')\<close>\<close>

definition replaceNbsp :: "string \<Rightarrow> string" where
  "replaceNbsp s = map (\<lambda>c. if c = nbsp then CHR '' '' else c) s"

text \<open>\<^verbatim>\<open>t.replace(/\r\n/g, '\n')\<close>\<close>

fun replaceCrLf :: "string \<Rightarrow> string" where
  "replaceCrLf (c # d # cs) =
     (if c = cr \<and> d = nl then nl # replaceCrLf cs else c # replaceCrLf (d # cs))"
| "replaceCrLf cs = cs"

definition isSpTab :: "char \<Rightarrow> bool" where
  "isSpTab c = (c = CHR '' '' \<or> c = tab)"

text \<open>
  A match of \<^verbatim>\<open>[ \t]*\n\<close> at the start of the text, and what follows the match. The
  character class and the line feed are disjoint, so the greedy run is the only candidate.
\<close>

fun matchRunNl :: "string \<Rightarrow> string option" where
  "matchRunNl [] = None"
| "matchRunNl (c # cs) =
     (if c = nl then Some cs else if isSpTab c then matchRunNl cs else None)"

text \<open>A match of \<^verbatim>\<open>[ \t]+\n\<close> at the start of the text.\<close>

fun matchSpNl :: "string \<Rightarrow> string option" where
  "matchSpNl [] = None"
| "matchSpNl (c # cs) = (if isSpTab c then matchRunNl cs else None)"

lemma matchRunNl_length: "matchRunNl s = Some r \<Longrightarrow> length r < length s"
  by (induction s) (auto split: if_splits)

lemma matchSpNl_length: "matchSpNl s = Some r \<Longrightarrow> length r < length s"
  by (cases s) (auto split: if_splits dest: matchRunNl_length)

text \<open>
  \<^verbatim>\<open>t.replace(/[ \t]+\n/g, '\n')\<close>: at each position from the left, a match is replaced by a
  line feed and the scan goes on behind it; otherwise the character is kept.
\<close>

function replaceSpNl :: "string \<Rightarrow> string" where
  "replaceSpNl [] = []"
| "replaceSpNl (c # cs) =
     (case matchSpNl (c # cs) of
        Some r \<Rightarrow> nl # replaceSpNl r
      | None \<Rightarrow> c # replaceSpNl cs)"
  by pat_completeness auto
termination
  by (relation "measure length") (auto simp del: matchSpNl.simps dest: matchSpNl_length)

text \<open>
  \<^verbatim>\<open>t.replace(/[ \t]+$/g, '')\<close>: without the \<^verbatim>\<open>m\<close> flag \<^verbatim>\<open>$\<close> is the end of the text, so
  the only match is a run of spaces and tabs that reaches the end.
\<close>

fun replaceSpEnd :: "string \<Rightarrow> string" where
  "replaceSpEnd [] = []"
| "replaceSpEnd (c # cs) = (if list_all isSpTab (c # cs) then [] else c # replaceSpEnd cs)"

definition normalizeCode :: "string \<Rightarrow> string" where
  "normalizeCode s =
     (if s = [] then []
      else (let t = replaceNbsp s;
                t = replaceCrLf t;
                t = replaceSpEnd (replaceSpNl t)
            in t))"

subsection \<open>addCodeBlockFromElement\<close>

definition isWordDash :: "char \<Rightarrow> bool" where
  "isWordDash c =
     (let n = (of_char c :: nat)
      in (97 \<le> n \<and> n \<le> 122) \<or> (65 \<le> n \<and> n \<le> 90) \<or> (48 \<le> n \<and> n \<le> 57)
         \<or> c = CHR ''_'' \<or> c = CHR ''-'')"

text \<open>
  \<^verbatim>\<open>/language-([\w-]+)/.exec(className)\<close>: the group of the leftmost match, \<open>None\<close> when
  there is no match.
\<close>

fun execLanguage :: "string \<Rightarrow> string option" where
  "execLanguage [] = None"
| "execLanguage (c # cs) =
     (if take 9 (c # cs) = ''language-'' \<and> takeWhile isWordDash (drop 9 (c # cs)) \<noteq> []
      then Some (takeWhile isWordDash (drop 9 (c # cs)))
      else execLanguage cs)"

text \<open>\<^verbatim>\<open>langAttr || (match ? match[1] : '')\<close>\<close>

definition languageOf :: "element \<Rightarrow> string" where
  "languageOf el =
     (case dataLanguage el of
        Some l \<Rightarrow> if l \<noteq> [] then l
                  else (case execLanguage (className el) of Some g \<Rightarrow> g | None \<Rightarrow> [])
      | None \<Rightarrow> (case execLanguage (className el) of Some g \<Rightarrow> g | None \<Rightarrow> []))"

text \<open>
  The state of the extraction is the array \<^verbatim>\<open>codeBlocks\<close> and the set \<^verbatim>\<open>seenCode\<close>.
\<close>

definition addCodeBlockFromElement ::
    "element \<Rightarrow> codeBlock list \<times> string set \<Rightarrow> codeBlock list \<times> string set" where
  "addCodeBlockFromElement el st =
     (let text = normalizeCode (textContent el)
      in if text = [] then st
         else if text \<in> snd st then st
         else (fst st @ [\<lparr>language = languageOf el, code = text\<rparr>], insert text (snd st)))"

text \<open>\<^verbatim>\<open>new Set([...])\<close> read back with \<^verbatim>\<open>Array.from\<close>: the first occurrence of each element, in order.\<close>

fun newSet :: "'a list \<Rightarrow> 'a list \<Rightarrow> 'a list" where
  "newSet seen [] = seen"
| "newSet seen (x # xs) = (if x \<in> set seen then newSet seen xs else newSet (seen @ [x]) xs)"

text \<open>The results of the six \<^verbatim>\<open>querySelectorAll\<close> calls for code, in the order of the source.\<close>

record page =
  preCode :: "element list"
  docblockSourceCode :: "element list"
  osContentPre :: "element list"
  osContentCode :: "element list"
  prePrismjs :: "element list"
  codePrismjs :: "element list"

definition candidates :: "page \<Rightarrow> element list" where
  "candidates pg =
     newSet [] (preCode pg @ docblockSourceCode pg @ osContentPre pg @ osContentCode pg
                @ prePrismjs pg @ codePrismjs pg)"

text \<open>\<^verbatim>\<open>candidates.forEach(addCodeBlockFromElement)\<close>\<close>

fun forEachCandidate :: "element list \<Rightarrow> codeBlock list \<times> string set \<Rightarrow> codeBlock list \<times> string set" where
  "forEachCandidate [] st = st"
| "forEachCandidate (el # els) st = forEachCandidate els (addCodeBlockFromElement el st)"

definition extractCodeBlocks :: "page \<Rightarrow> codeBlock list" where
  "extractCodeBlocks pg = fst (forEachCandidate (candidates pg) ([], {}))"

section \<open>The extraction of the code blocks in scrape-storybook.js\<close>

text \<open>
  The file \<^verbatim>\<open>scrape-storybook.js\<close> holds an earlier form of the extraction: one
  \<^verbatim>\<open>querySelectorAll\<close>, every element mapped to a block, the text passed through
  \<^verbatim>\<open>normalize\<close>, which is \<^verbatim>\<open>(s || '').replace(/\u00A0/g, ' ').trim()\<close>. The white space
  that \<^verbatim>\<open>trim\<close> removes is, among the code units up to \<open>0xFF\<close>, the characters
  \<open>0x09\<close> to \<open>0x0D\<close>, the space and the no-break space.
\<close>

definition isWhiteSpace :: "char \<Rightarrow> bool" where
  "isWhiteSpace c =
     (c = tab \<or> c = nl \<or> c = CHR 0x0B \<or> c = CHR 0x0C \<or> c = cr \<or> c = CHR '' '' \<or> c = nbsp)"

definition trim :: "string \<Rightarrow> string" where
  "trim s = rev (dropWhile isWhiteSpace (rev (dropWhile isWhiteSpace s)))"

definition normalize_str :: "string \<Rightarrow> string" where
  "normalize_str s = trim (replaceNbsp s)"

definition mapCodeBlocks :: "element list \<Rightarrow> codeBlock list" where
  "mapCodeBlocks els =
     map (\<lambda>el. \<lparr>language = languageOf el, code = normalize_str (textContent el)\<rparr>) els"

section \<open>The emitted text, piece by piece\<close>

text \<open>
  The pieces that \<^verbatim>\<open>buildMarkdownForStory\<close> appends to \<^verbatim>\<open>md\<close>, named so that the
  properties below can speak of headings, sections and rows: a heading line, the indices
  of the title parts that get a heading, one code example section, one table row.
\<close>

definition headingLine :: "nat \<Rightarrow> string \<Rightarrow> string" where
  "headingLine level text = repeat ''#'' level @ '' '' @ text @ [nl, nl]"

definition changedIndices :: "string list \<Rightarrow> string list \<Rightarrow> nat \<Rightarrow> nat list" where
  "changedIndices tps lastTitleParts i =
     filter (\<lambda>j. Some (tps ! j) \<noteq> index lastTitleParts j) [i..<length tps]"

definition pathHeadings :: "string list \<Rightarrow> string list \<Rightarrow> string list" where
  "pathHeadings tps lastTitleParts =
     map (\<lambda>j. headingLine (j + 1) (tps ! j)) (changedIndices tps lastTitleParts 0)"

definition codeSection :: "nat \<Rightarrow> nat \<Rightarrow> codeBlock \<Rightarrow> string" where
  "codeSection storyHeadingLevel k block =
     headingLine (storyHeadingLevel + 1) (''Code example '' @ toString k)
     @ ''```'' @ language block @ [nl] @ code block @ [nl] @ ''```'' @ [nl, nl]"

definition rowLine :: "string list \<Rightarrow> string" where
  "rowLine cells = ''| '' @ join '' | '' cells @ '' |'' @ [nl]"

text \<open>Everything \<^verbatim>\<open>buildMarkdownForStory\<close> appends after the leaf heading.\<close>

definition contentSections :: "nat \<Rightarrow> content \<Rightarrow> string" where
  "contentSections storyHeadingLevel c =
     codeForEach storyHeadingLevel (codeBlocks c) 0 []
     @ tableForEach storyHeadingLevel (tables c) 0 []"

text \<open>
  The words of the specification for the normalization of a code text: the text is cut
  into lines at the line feeds, each line loses the spaces and tabs at its end, and the
  lines are joined again.
\<close>

definition stripRight :: "string \<Rightarrow> string" where
  "stripRight l = rev (dropWhile isSpTab (rev l))"

definition trimLineEnds :: "string \<Rightarrow> string" where
  "trimLineEnds s = join [nl] (map stripRight (split nl s))"

text \<open>
  The same in three steps, as the amended statement of the normalization has it: every
  no-break space becomes a space (the text is cut at the no-break spaces and joined with
  spaces); the text is cut into lines at the line feeds; every line that a line feed ends
  loses one carriage return at its end, and then every line loses the spaces and tabs at
  its end.
\<close>

definition nbspToSpace :: "string \<Rightarrow> string" where
  "nbspToSpace s = join '' '' (split nbsp s)"

definition dropFinalCr :: "string \<Rightarrow> string" where
  "dropFinalCr l = (if l \<noteq> [] \<and> last l = cr then butlast l else l)"

fun trimLines :: "string list \<Rightarrow> string list" where
  "trimLines [] = []"
| "trimLines [l] = [stripRight l]"
| "trimLines (l # ls) = stripRight (dropFinalCr l) # trimLines ls"

text \<open>
  The words of the specification for the deduplication: of the elements with the same
  key only the first occurrence stays.
\<close>

fun keepFirstBy :: "('a \<Rightarrow> 'b) \<Rightarrow> 'a list \<Rightarrow> 'a list" where
  "keepFirstBy f [] = []"
| "keepFirstBy f (x # xs) = x # keepFirstBy f (filter (\<lambda>y. f y \<noteq> f x) xs)"

text \<open>The block that \<^verbatim>\<open>addCodeBlockFromElement\<close> makes of an element.\<close>

definition blockOf :: "element \<Rightarrow> codeBlock" where
  "blockOf el = \<lparr>language = languageOf el, code = normalizeCode (textContent el)\<rparr>"

text \<open>
  Some empty segment of a split title is followed, anywhere later, by a segment that is
  not empty.
\<close>

definition emptyBeforeNonEmpty :: "string list \<Rightarrow> bool" where
  "emptyBeforeNonEmpty parts = (filter (\<lambda>p. p \<noteq> []) (dropWhile (\<lambda>p. p \<noteq> []) parts) \<noteq> [])"

section \<open>The loops in closed form\<close>

lemma titleLoop_from:
  "titleLoop tps l i md =
     md @ concat (map (\<lambda>j. headingLine (j + 1) (tps ! j)) (changedIndices tps l i))"
proof (induction tps l i md rule: titleLoop.induct)
  case (1 tps l i md)
  show ?case
  proof (cases "i < length tps")
    case True
    then have upt: "[i..<length tps] = i # [i + 1..<length tps]"
      by (simp add: upt_conv_Cons)
    show ?thesis
      using True 1[OF True]
      by (subst titleLoop.simps) (simp add: changedIndices_def upt headingLine_def)
  next
    case False
    then show ?thesis
      by (subst titleLoop.simps) (simp add: changedIndices_def)
  qed
qed

lemma titleLoop_headings: "titleLoop tps l 0 [] = concat (pathHeadings tps l)"
  by (simp add: titleLoop_from pathHeadings_def)

lemma codeForEach_sections:
  "codeForEach lvl bs idx md =
     md @ concat (map (\<lambda>(i, b). codeSection lvl (i + 1) b) (enumerate idx bs))"
  by (induction bs arbitrary: idx md) (simp_all add: codeSection_def headingLine_def)

lemma padLoop_eq: "padLoop row n = row @ replicate (n - length row) []"
proof (induction row n rule: padLoop.induct)
  case (1 row n)
  show ?case
  proof (cases "length row < n")
    case True
    then have "n - length row = Suc (n - Suc (length row))" by simp
    then show ?thesis
      using True 1[OF True]
      by (subst padLoop.simps) (simp add: replicate_app_Cons_same)
  next
    case False
    then show ?thesis
      by (subst padLoop.simps) simp
  qed
qed

lemma rowsLoop_lines:
  "rowsLoop n rs md = md @ concat (map (\<lambda>row. rowLine (padLoop row n)) rs)"
  by (induction rs arbitrary: md) (simp_all add: rowLine_def)

lemma tableForEach_from:
  "tableForEach lvl ts idx md = md @ tableForEach lvl ts idx []"
proof (induction ts arbitrary: idx md)
  case Nil
  show ?case by simp
next
  case (Cons t ts)
  have cb: "tableCallback lvl t idx m = m @ tableCallback lvl t idx []" for m
    by (simp add: tableCallback_def Let_def rowsLoop_lines)
  show ?case
    using Cons.IH[of "idx + 1" "tableCallback lvl t idx md"]
          Cons.IH[of "idx + 1" "tableCallback lvl t idx []"] cb[of md]
    by simp
qed

lemma codeForEach_from: "codeForEach lvl bs idx md = md @ codeForEach lvl bs idx []"
  using codeForEach_sections[of lvl bs idx md] codeForEach_sections[of lvl bs idx "[]"]
  by simp

lemma buildMarkdownForStory_parts:
  "buildMarkdownForStory s c l =
     concat (pathHeadings (titleParts s) l)
     @ headingLine (length (titleParts s) + 1) (storyName s)
     @ contentSections (length (titleParts s) + 1) c"
proof -
  have code: "(if length (codeBlocks c) > 0 then codeForEach lvl (codeBlocks c) 0 m else m)
        = m @ codeForEach lvl (codeBlocks c) 0 []" for m lvl
    using codeForEach_from[of lvl "codeBlocks c" 0 m] by (cases "codeBlocks c") simp_all
  have tab: "(if length (tables c) > 0 then tableForEach lvl (tables c) 0 m else m)
        = m @ tableForEach lvl (tables c) 0 []" for m lvl
    using tableForEach_from[of lvl "tables c" 0 m] by (cases "tables c") simp_all
  show ?thesis
    unfolding buildMarkdownForStory_def Let_def code tab titleLoop_headings contentSections_def
      headingLine_def
    by simp
qed

lemma tableCallback_emitted:
  assumes "tableHeaders t \<noteq> []"
  shows "tableCallback lvl t idx md =
           md @ headingLine (lvl + 1) (''Props table '' @ toString (idx + 1))
              @ rowLine (tableHeaders t)
              @ rowLine (map (\<lambda>_. ''---'') (tableHeaders t))
              @ concat (map (\<lambda>row. rowLine (padLoop row (length (tableHeaders t)))) (rows t))
              @ [nl]"
  using assms
  by (simp add: tableCallback_def Let_def rowsLoop_lines rowLine_def headingLine_def)

lemma tableForEach_append:
  "tableForEach lvl (xs @ ys) idx md = tableForEach lvl ys (idx + length xs) (tableForEach lvl xs idx md)"
  by (induction xs arbitrary: idx md) simp_all

lemma tableCallback_from: "tableCallback lvl t idx md = md @ tableCallback lvl t idx []"
  by (simp add: tableCallback_def Let_def rowsLoop_lines)

lemma tableForEach_split:
  "tableForEach lvl (before @ t # after) 0 [] =
     tableForEach lvl before 0 []
     @ tableCallback lvl t (length before) []
     @ tableForEach lvl after (length before + 1) []"
proof -
  have "tableForEach lvl (before @ t # after) 0 [] =
          tableForEach lvl after (length before + 1)
            (tableCallback lvl t (length before) (tableForEach lvl before 0 []))"
    by (simp add: tableForEach_append)
  also have "\<dots> = tableCallback lvl t (length before) (tableForEach lvl before 0 [])
                   @ tableForEach lvl after (length before + 1) []"
    by (rule tableForEach_from)
  also have "tableCallback lvl t (length before) (tableForEach lvl before 0 [])
               = tableForEach lvl before 0 [] @ tableCallback lvl t (length before) []"
    by (rule tableCallback_from)
  finally show ?thesis by simp
qed

lemma buildMarkdownForStory_table:
  assumes "tables c = before @ t # after"
  shows "buildMarkdownForStory s c l =
           buildMarkdownForStory s (c\<lparr>tables := before\<rparr>) l
           @ tableCallback (length (titleParts s) + 1) t (length before) []
           @ tableForEach (length (titleParts s) + 1) after (length before + 1) []"
  using assms tableForEach_split[of "length (titleParts s) + 1" before t after]
  by (simp add: buildMarkdownForStory_parts contentSections_def)

section \<open>The code blocks that survive\<close>

lemma set_keepFirst: "set (keepFirstBy f xs) \<subseteq> set xs"
  by (induction f xs rule: keepFirstBy.induct) auto

lemma distinct_keepFirst: "distinct (map f (keepFirstBy f xs))"
proof (induction f xs rule: keepFirstBy.induct)
  case (1 f)
  show ?case by simp
next
  case (2 f x xs)
  have "f x \<notin> f ` set (keepFirstBy f (filter (\<lambda>y. f y \<noteq> f x) xs))"
    using set_keepFirst[of f "filter (\<lambda>y. f y \<noteq> f x) xs"] by auto
  then show ?case
    using 2 by simp
qed

lemma forEachCandidate_blocks:
  "fst (forEachCandidate els (bs, seen)) =
     bs @ keepFirstBy code (filter (\<lambda>b. code b \<noteq> [] \<and> code b \<notin> seen) (map blockOf els))"
proof (induction els arbitrary: bs seen)
  case Nil
  show ?case by simp
next
  case (Cons el els)
  let ?t = "normalizeCode (textContent el)"
  have t: "code (blockOf el) = ?t"
    by (simp add: blockOf_def)
  have flt: "filter (\<lambda>y. code y \<noteq> ?t) (filter (\<lambda>b. code b \<noteq> [] \<and> code b \<notin> seen) xs)
           = filter (\<lambda>b. code b \<noteq> [] \<and> code b \<notin> insert ?t seen) xs" for xs
    by (induction xs) auto
  show ?case
  proof (cases "?t = [] \<or> ?t \<in> seen")
    case True
    then have "addCodeBlockFromElement el (bs, seen) = (bs, seen)"
      by (auto simp: addCodeBlockFromElement_def Let_def)
    then show ?thesis
      using True Cons.IH[of bs seen] by (auto simp: t)
  next
    case False
    then have "addCodeBlockFromElement el (bs, seen) = (bs @ [blockOf el], insert ?t seen)"
      by (auto simp: addCodeBlockFromElement_def Let_def blockOf_def)
    then show ?thesis
      using False Cons.IH[of "bs @ [blockOf el]" "insert ?t seen"]
      by (simp add: flt t del: filter_filter)
  qed
qed

lemma extractCodeBlocks_blocks:
  "extractCodeBlocks pg =
     keepFirstBy code (filter (\<lambda>b. code b \<noteq> []) (map blockOf (candidates pg)))"
  by (simp add: extractCodeBlocks_def forEachCandidate_blocks)

lemma enumerate_nth: "map f (enumerate 0 xs) = map (\<lambda>i. f (i, xs ! i)) [0..<length xs]"
  by (rule nth_equalityI) (simp_all add: nth_enumerate_eq)

lemma codeForEach_numbered:
  "codeForEach lvl bs 0 md =
     md @ concat (map (\<lambda>i. codeSection lvl (i + 1) (bs ! i)) [0..<length bs])"
  using enumerate_nth[of "\<lambda>(i, b). codeSection lvl (i + 1) b" bs]
  by (simp add: codeForEach_sections)

lemma buildMarkdownForStory_code_sections:
  "buildMarkdownForStory s \<lparr>codeBlocks = bs, tables = ts\<rparr> l =
     concat (pathHeadings (titleParts s) l)
     @ headingLine (length (titleParts s) + 1) (storyName s)
     @ concat (map (\<lambda>i. codeSection (length (titleParts s) + 1) (i + 1) (bs ! i)) [0..<length bs])
     @ tableForEach (length (titleParts s) + 1) ts 0 []"
  using codeForEach_numbered[of "length (titleParts s) + 1" bs "[]"]
  by (simp add: buildMarkdownForStory_parts contentSections_def)

section \<open>The two replacements of normalizeCode and the lines of the text\<close>

lemma stripRight_Cons:
  "stripRight (c # l) = (if list_all isSpTab (c # l) then [] else c # stripRight l)"
proof (cases "list_all isSpTab l")
  case True
  then have "\<forall>x\<in>set (rev l). isSpTab x" by (simp add: list_all_iff)
  then show ?thesis
    using True by (simp add: stripRight_def dropWhile_append)
next
  case False
  then have "\<not> (\<forall>x\<in>set (rev l). isSpTab x)" by (simp add: list_all_iff)
  then show ?thesis
    using False by (simp add: stripRight_def dropWhile_append)
qed

lemma stripRight_Nil: "stripRight [] = []"
  by (simp add: stripRight_def)

lemma replaceSpEnd_stripRight: "replaceSpEnd l = stripRight l"
  by (induction l) (simp_all add: stripRight_Nil stripRight_Cons)

lemma matchRunNl_line:
  "nl \<notin> set l \<Longrightarrow> matchRunNl (l @ nl # r) = (if list_all isSpTab l then Some r else None)"
  by (induction l) auto

lemma matchRunNl_no_nl: "nl \<notin> set l \<Longrightarrow> matchRunNl l = None"
  by (induction l) auto

lemma isSpTab_nl: "\<not> isSpTab nl"
  by (simp add: isSpTab_def)

lemma replaceSpNl_line:
  "nl \<notin> set l \<Longrightarrow> replaceSpNl (l @ nl # r) = stripRight l @ nl # replaceSpNl r"
proof (induction l)
  case Nil
  show ?case by (simp add: isSpTab_nl stripRight_Nil)
next
  case (Cons c l)
  then have nl: "nl \<notin> set l" and c: "c \<noteq> nl" by auto
  show ?case
    using Cons.IH[OF nl] matchRunNl_line[OF nl, of r]
    by (simp add: stripRight_Cons)
qed

lemma replaceSpNl_no_nl: "nl \<notin> set l \<Longrightarrow> replaceSpNl l = l"
  by (induction l) (auto simp: matchRunNl_no_nl)

lemma replaceSpEnd_line: "replaceSpEnd (a @ nl # b) = a @ nl # replaceSpEnd b"
  by (induction a) (auto simp: isSpTab_nl list_all_iff)

lemma split_not_Nil: "split sep s \<noteq> []"
  by (induction s) (auto split: list.splits)

lemma split_line: "sep \<notin> set l \<Longrightarrow> split sep (l @ sep # r) = l # split sep r"
  by (induction l) auto

lemma split_no_sep: "sep \<notin> set l \<Longrightarrow> split sep l = [l]"
  by (induction l) auto

lemma join_Cons: "xs \<noteq> [] \<Longrightarrow> join sep (x # xs) = x @ sep @ join sep xs"
  by (cases xs) simp_all

lemma replace_trimLineEnds: "replaceSpEnd (replaceSpNl t) = trimLineEnds t"
proof (induction t rule: length_induct)
  case (1 t)
  show ?case
  proof (cases "nl \<in> set t")
    case False
    then show ?thesis
      by (simp add: replaceSpNl_no_nl replaceSpEnd_stripRight trimLineEnds_def split_no_sep)
  next
    case True
    then obtain l r where t: "t = l @ nl # r" and l: "nl \<notin> set l"
      by (auto dest: split_list_first)
    have "length r < length t" using t by simp
    then have ih: "replaceSpEnd (replaceSpNl r) = trimLineEnds r"
      using 1 by blast
    have "replaceSpEnd (replaceSpNl t) = stripRight l @ nl # trimLineEnds r"
      by (simp add: t replaceSpNl_line[OF l] replaceSpEnd_line ih)
    moreover have "trimLineEnds t = stripRight l @ nl # trimLineEnds r"
      by (simp add: t trimLineEnds_def split_line[OF l] join_Cons split_not_Nil)
    ultimately show ?thesis by simp
  qed
qed

lemma join_Cons_char: "join sep ((c # w) # ws) = c # join sep (w # ws)"
  by (cases ws) simp_all

lemma replaceNbsp_split_join: "replaceNbsp s = nbspToSpace s"
proof (induction s)
  case Nil
  show ?case by (simp add: replaceNbsp_def nbspToSpace_def)
next
  case (Cons c cs)
  obtain w ws where sp: "split nbsp cs = w # ws"
    using split_not_Nil[of nbsp cs] by (cases "split nbsp cs") auto
  show ?case
  proof (cases "c = nbsp")
    case True
    have "join '' '' ([] # split nbsp cs) = '' '' @ join '' '' (split nbsp cs)"
      using join_Cons[OF split_not_Nil, of "'' ''" "[]" nbsp cs] by simp
    then show ?thesis
      using True Cons.IH by (simp add: replaceNbsp_def nbspToSpace_def)
  next
    case False
    then show ?thesis
      using Cons.IH sp by (simp add: replaceNbsp_def nbspToSpace_def join_Cons_char)
  qed
qed

lemma replaceCrLf_nl: "replaceCrLf (nl # r) = nl # replaceCrLf r"
  by (cases r) simp_all

lemma replaceCrLf_line:
  "nl \<notin> set l \<Longrightarrow> replaceCrLf (l @ nl # r) = dropFinalCr l @ nl # replaceCrLf r"
proof (induction l rule: induct_list012)
  case 1
  show ?case by (simp add: replaceCrLf_nl dropFinalCr_def)
next
  case (2 x)
  then show ?case by (simp add: replaceCrLf_nl dropFinalCr_def)
next
  case (3 x y zs)
  then have "replaceCrLf (x # y # zs @ nl # r) = x # replaceCrLf (y # zs @ nl # r)"
    by auto
  then show ?case
    using 3 by (auto simp: dropFinalCr_def)
qed

lemma replaceCrLf_no_nl: "nl \<notin> set l \<Longrightarrow> replaceCrLf l = l"
  by (induction l rule: induct_list012) auto

lemma dropFinalCr_no_nl: "nl \<notin> set l \<Longrightarrow> nl \<notin> set (dropFinalCr l)"
  by (auto simp: dropFinalCr_def dest: in_set_butlastD)

lemma trimLines_Cons: "ls \<noteq> [] \<Longrightarrow> trimLines (l # ls) = stripRight (dropFinalCr l) # trimLines ls"
  by (cases ls) simp_all

lemma trimLines_not_Nil: "ls \<noteq> [] \<Longrightarrow> trimLines ls \<noteq> []"
  by (induction ls rule: trimLines.induct) simp_all

lemma replace_trimLines:
  "replaceSpEnd (replaceSpNl (replaceCrLf t)) = join [nl] (trimLines (split nl t))"
proof (induction t rule: length_induct)
  case (1 t)
  show ?case
  proof (cases "nl \<in> set t")
    case False
    then show ?thesis
      by (simp add: replaceCrLf_no_nl replaceSpNl_no_nl replaceSpEnd_stripRight split_no_sep)
  next
    case True
    then obtain l r where t: "t = l @ nl # r" and l: "nl \<notin> set l"
      by (auto dest: split_list_first)
    have "length r < length t" using t by simp
    then have ih: "replaceSpEnd (replaceSpNl (replaceCrLf r)) = join [nl] (trimLines (split nl r))"
      using 1 by blast
    have "replaceSpEnd (replaceSpNl (replaceCrLf t))
            = stripRight (dropFinalCr l) @ nl # join [nl] (trimLines (split nl r))"
      by (simp add: t replaceCrLf_line[OF l] replaceSpNl_line[OF dropFinalCr_no_nl[OF l]]
          replaceSpEnd_line ih)
    moreover have "join [nl] (trimLines (split nl t))
            = stripRight (dropFinalCr l) @ nl # join [nl] (trimLines (split nl r))"
      by (simp add: t split_line[OF l] trimLines_Cons split_not_Nil join_Cons trimLines_not_Nil)
    ultimately show ?thesis by simp
  qed
qed

lemma trim_parts:
  "\<exists>a b. list_all isWhiteSpace a \<and> list_all isWhiteSpace b \<and> u = a @ trim u @ b"
proof -
  let ?v = "dropWhile isWhiteSpace u"
  have a: "list_all isWhiteSpace (takeWhile isWhiteSpace u)"
    by (simp add: list_all_iff) (meson set_takeWhileD)
  have b: "list_all isWhiteSpace (rev (takeWhile isWhiteSpace (rev ?v)))"
    by (simp add: list_all_iff) (meson set_takeWhileD)
  have "rev ?v = takeWhile isWhiteSpace (rev ?v) @ dropWhile isWhiteSpace (rev ?v)"
    by simp
  then have "?v = rev (dropWhile isWhiteSpace (rev ?v)) @ rev (takeWhile isWhiteSpace (rev ?v))"
    by (metis rev_append rev_rev_ident)
  then have "u = takeWhile isWhiteSpace u @ trim u @ rev (takeWhile isWhiteSpace (rev ?v))"
    unfolding trim_def by (metis takeWhile_dropWhile_id)
  then show ?thesis
    using a b by blast
qed

lemma takeWhile_dropWhile_Nil: "takeWhile P (dropWhile P xs) = []"
  by (induction xs) auto

lemma trim_ends:
  "takeWhile isWhiteSpace (trim u) = [] \<and> takeWhile isWhiteSpace (rev (trim u)) = []"
proof -
  let ?v = "dropWhile isWhiteSpace u"
  let ?w = "dropWhile isWhiteSpace (rev ?v)"
  have r: "takeWhile isWhiteSpace (rev (trim u)) = []"
    by (simp add: trim_def takeWhile_dropWhile_Nil)
  have "takeWhile isWhiteSpace (trim u) = []"
  proof (cases "trim u")
    case Nil
    then show ?thesis by simp
  next
    case (Cons c cs)
    have "rev ?v = takeWhile isWhiteSpace (rev ?v) @ ?w" by simp
    then have "?v = rev ?w @ rev (takeWhile isWhiteSpace (rev ?v))"
      by (metis rev_append rev_rev_ident)
    then have v: "?v = (c # cs) @ rev (takeWhile isWhiteSpace (rev ?v))"
      using Cons by (simp add: trim_def)
    then have "?v \<noteq> []" by (metis Nil_is_append_conv list.distinct(1))
    then have "\<not> isWhiteSpace (hd ?v)" by (rule hd_dropWhile)
    moreover have "hd ?v = c" using v by (metis append_Cons list.sel(1))
    ultimately show ?thesis using Cons by simp
  qed
  then show ?thesis using r by simp
qed

section \<open>The title parts against the split title\<close>

lemma index_nth: "index xs i = (if i < length xs then Some (xs ! i) else None)"
  by (induction xs i rule: index.induct) simp_all

lemma changedIndices_Cons:
  "changedIndices (x # tps) (y # ys) 0 =
     (if x \<noteq> y then [0] else []) @ map Suc (changedIndices tps ys 0)"
proof -
  have "[0..<length (x # tps)] = 0 # map Suc [0..<length tps]"
    by (simp add: upt_conv_Cons map_Suc_upt del: upt_Suc)
  then show ?thesis
    by (simp add: changedIndices_def filter_map comp_def)
qed

lemma changedIndices_Nil: "changedIndices [] l 0 = []"
  by (simp add: changedIndices_def)

lemma changedIndices_after_empty:
  "(changedIndices (filter (\<lambda>p. p \<noteq> []) xs) ([] # xs) 0 \<noteq> []) = (filter (\<lambda>p. p \<noteq> []) xs \<noteq> [])"
proof (cases "filter (\<lambda>p. p \<noteq> []) xs")
  case Nil
  then show ?thesis by (simp add: changedIndices_Nil)
next
  case (Cons a as)
  then have "a \<in> set (filter (\<lambda>p. p \<noteq> []) xs)" by simp
  then have "a \<noteq> []" by simp
  then show ?thesis
    using Cons by (simp add: changedIndices_Cons)
qed

lemma changedIndices_raw:
  "(changedIndices (filter (\<lambda>p. p \<noteq> []) raw) raw 0 \<noteq> []) = emptyBeforeNonEmpty raw"
proof (induction raw)
  case Nil
  show ?case by (simp add: changedIndices_Nil emptyBeforeNonEmpty_def)
next
  case (Cons x xs)
  show ?case
  proof (cases "x = []")
    case True
    then show ?thesis
      using changedIndices_after_empty[of xs] by (simp add: emptyBeforeNonEmpty_def)
  next
    case False
    then show ?thesis
      using Cons.IH by (simp add: changedIndices_Cons emptyBeforeNonEmpty_def)
  qed
qed

lemma headingLine_not_Nil: "headingLine level text \<noteq> []"
  by (simp add: headingLine_def)

lemma titleLoop_emits: "(titleLoop tps l 0 [] \<noteq> []) = (changedIndices tps l 0 \<noteq> [])"
  by (cases "changedIndices tps l 0") (simp_all add: titleLoop_from headingLine_not_Nil)

lemma emptyBeforeNonEmpty_iff:
  "emptyBeforeNonEmpty parts =
     (\<exists>i j. i < j \<and> j < length parts \<and> parts ! i = [] \<and> parts ! j \<noteq> [])"
proof (induction parts)
  case Nil
  show ?case by (simp add: emptyBeforeNonEmpty_def)
next
  case (Cons x xs)
  show ?case
  proof (cases "x = []")
    case True
    have "(filter (\<lambda>p. p \<noteq> []) xs \<noteq> []) = (\<exists>j. j < length xs \<and> xs ! j \<noteq> [])"
      by (simp add: filter_empty_conv) (metis in_set_conv_nth)
    also have "\<dots> = (\<exists>i j. i < j \<and> j < length (x # xs) \<and> (x # xs) ! i = [] \<and> (x # xs) ! j \<noteq> [])"
    proof
      assume "\<exists>j. j < length xs \<and> xs ! j \<noteq> []"
      then obtain j where "j < length xs" "xs ! j \<noteq> []" by blast
      then have "0 < Suc j \<and> Suc j < length (x # xs) \<and> (x # xs) ! 0 = [] \<and> (x # xs) ! Suc j \<noteq> []"
        using True by simp
      then show "\<exists>i j. i < j \<and> j < length (x # xs) \<and> (x # xs) ! i = [] \<and> (x # xs) ! j \<noteq> []"
        by blast
    next
      assume "\<exists>i j. i < j \<and> j < length (x # xs) \<and> (x # xs) ! i = [] \<and> (x # xs) ! j \<noteq> []"
      then obtain i j where ij: "i < j" "j < length (x # xs)" "(x # xs) ! j \<noteq> []" by blast
      then obtain j' where "j = Suc j'" by (cases j) auto
      then have "j' < length xs \<and> xs ! j' \<noteq> []" using ij by simp
      then show "\<exists>j. j < length xs \<and> xs ! j \<noteq> []" by blast
    qed
    finally show ?thesis
      using True by (simp add: emptyBeforeNonEmpty_def)
  next
    case False
    have "(\<exists>i j. i < j \<and> j < length (x # xs) \<and> (x # xs) ! i = [] \<and> (x # xs) ! j \<noteq> [])
        = (\<exists>i j. i < j \<and> j < length xs \<and> xs ! i = [] \<and> xs ! j \<noteq> [])"
    proof
      assume "\<exists>i j. i < j \<and> j < length (x # xs) \<and> (x # xs) ! i = [] \<and> (x # xs) ! j \<noteq> []"
      then obtain i j where ij: "i < j" "j < length (x # xs)" "(x # xs) ! i = []" "(x # xs) ! j \<noteq> []"
        by blast
      then obtain i' where i': "i = Suc i'" using False by (cases i) auto
      then obtain j' where j': "j = Suc j'" using ij by (cases j) auto
      have "i' < j' \<and> j' < length xs \<and> xs ! i' = [] \<and> xs ! j' \<noteq> []"
        using ij i' j' by simp
      then show "\<exists>i j. i < j \<and> j < length xs \<and> xs ! i = [] \<and> xs ! j \<noteq> []" by blast
    next
      assume "\<exists>i j. i < j \<and> j < length xs \<and> xs ! i = [] \<and> xs ! j \<noteq> []"
      then obtain i j where "i < j" "j < length xs" "xs ! i = []" "xs ! j \<noteq> []" by blast
      then have "Suc i < Suc j \<and> Suc j < length (x # xs) \<and> (x # xs) ! Suc i = [] \<and> (x # xs) ! Suc j \<noteq> []"
        by simp
      then show "\<exists>i j. i < j \<and> j < length (x # xs) \<and> (x # xs) ! i = [] \<and> (x # xs) ! j \<noteq> []"
        by blast
    qed
    then show ?thesis
      using False Cons.IH by (simp add: emptyBeforeNonEmpty_def)
  qed
qed

section \<open>Path headings after a change of parent\<close>

text \<open>
  C1. The claim: with a longest common prefix of length \<open>k\<close> between the path and the
  cursor, every title part from index \<open>k\<close> on gets a heading, also a later part that
  equals the cursor's part at the same index. The code at the titles \<^verbatim>\<open>A/B/C\<close> then
  \<^verbatim>\<open>A/X/C\<close>: the second story gets the heading \<^verbatim>\<open>## X\<close> and its leaf heading at level 4,
  and no heading \<^verbatim>\<open>### C\<close>, though \<open>k = 1\<close> and the path has three parts.
\<close>

theorem later_equal_part_gets_no_heading:
  "storyLoop
     [(\<lparr>story_id = ''a-b-c--s'', name = Some ''S1'', title = Some ''A/B/C''\<rparr>,
       Loaded \<lparr>codeBlocks = [], tables = []\<rparr>),
      (\<lparr>story_id = ''a-x-c--s'', name = Some ''S2'', title = Some ''A/X/C''\<rparr>,
       Loaded \<lparr>codeBlocks = [], tables = []\<rparr>)] [] []
   = Inr (''# A'' @ [nl, nl] @ ''## B'' @ [nl, nl] @ ''### C'' @ [nl, nl] @ ''#### S1'' @ [nl, nl]
          @ ''## X'' @ [nl, nl] @ ''#### S2'' @ [nl, nl],
          [''A'', ''X'', ''C''])"
  by (simp add: buildMarkdownForStory_def titleParts_def storyName_def titleLoop.simps repeat_def)

section \<open>A story whose page does not load\<close>

text \<open>
  C2, as claimed: for a story whose page load fails the driver still emits the story's
  headings and still sets the cursor to the story's path. The code at one story with the
  title \<^verbatim>\<open>A\<close> whose \<^verbatim>\<open>page.goto\<close> throws: the document is unchanged, although the story's
  headings are \<^verbatim>\<open># A\<close> and \<^verbatim>\<open>## S\<close>, and the cursor stays empty, although the story's
  title splits into one part.
\<close>

theorem failed_load_emits_nothing:
  "storyLoop [(\<lparr>story_id = ''a--s'', name = Some ''S'', title = Some ''A''\<rparr>, GotoFailed)] ''doc'' []
     = Inr (''doc'', [])
   \<and> buildMarkdownForStory \<lparr>story_id = ''a--s'', name = Some ''S'', title = Some ''A''\<rparr>
         \<lparr>codeBlocks = [], tables = []\<rparr> [] = ''# A'' @ [nl, nl] @ ''## S'' @ [nl, nl]
   \<and> split CHR ''/'' ''A'' = [''A'']"
  by (simp add: buildMarkdownForStory_def titleParts_def storyName_def titleLoop.simps repeat_def)

text \<open>
  C2, amended: a story whose page load fails leaves no trace. The \<^verbatim>\<open>continue\<close> in the
  \<^verbatim>\<open>catch\<close> skips the headings, the content sections and the cursor update alike, so the
  run goes on as if the story were not in the manifest; the cursor is set, to the split of
  the title, in the iterations whose page loaded.
\<close>

theorem failed_load_is_skipped:
  "storyLoop (before @ (s, GotoFailed) # after) markdown lastTitleParts
     = storyLoop (before @ after) markdown lastTitleParts
   \<and> storyLoop ((s\<lparr>title := Some t\<rparr>, Loaded c) # after) markdown lastTitleParts
     = storyLoop after (markdown @ buildMarkdownForStory (s\<lparr>title := Some t\<rparr>) c lastTitleParts)
         (split CHR ''/'' t)"
proof
  show "storyLoop (before @ (s, GotoFailed) # after) markdown lastTitleParts
     = storyLoop (before @ after) markdown lastTitleParts"
  proof (induction before arbitrary: markdown lastTitleParts)
    case Nil
    show ?case by simp
  next
    case (Cons p before)
    obtain s' oc where p: "p = (s', oc)" by (cases p)
    show ?case
      by (cases oc) (simp_all add: p Cons.IH Let_def split: option.splits)
  qed
next
  show "storyLoop ((s\<lparr>title := Some t\<rparr>, Loaded c) # after) markdown lastTitleParts
     = storyLoop after (markdown @ buildMarkdownForStory (s\<lparr>title := Some t\<rparr>) c lastTitleParts)
         (split CHR ''/'' t)"
    by simp
qed

section \<open>A table with no headers and no rows\<close>

text \<open>
  C3. The claim: a table with empty headers and zero rows adds nothing to the document,
  no heading and no table. The code at such a table: the heading \<^verbatim>\<open>Props table 1\<close> is
  appended before the test for empty headers leaves the callback.
\<close>

theorem empty_table_heading_emitted:
  "buildMarkdownForStory \<lparr>story_id = ''a--s'', name = Some ''S'', title = Some ''A''\<rparr>
     \<lparr>codeBlocks = [], tables = [\<lparr>headers = [], rows = []\<rparr>]\<rparr> []
   = ''# A'' @ [nl, nl] @ ''## S'' @ [nl, nl] @ ''### Props table 1'' @ [nl, nl]"
  by (simp add: buildMarkdownForStory_def titleParts_def storyName_def titleLoop.simps repeat_def
      tableCallback_def tableHeaders_def toString.simps)

section \<open>Duplicate code blocks\<close>

text \<open>
  C4, as claimed: of the code blocks of a story with the same normalized text only the
  first is emitted, so the texts a, a, b give two sections. The code of
  \<^verbatim>\<open>scrape-storybook.js\<close> at three elements with these texts: its extraction maps every
  element to a block, and three sections are emitted, a under the numbers 1 and 2.
\<close>

theorem earlier_extraction_keeps_duplicates:
  "buildMarkdownForStory \<lparr>story_id = ''a--s'', name = Some ''S'', title = Some ''A''\<rparr>
     \<lparr>codeBlocks = mapCodeBlocks
         [\<lparr>node = 1, textContent = ''a'', dataLanguage = None, className = ''''\<rparr>,
          \<lparr>node = 2, textContent = ''a'', dataLanguage = None, className = ''''\<rparr>,
          \<lparr>node = 3, textContent = ''b'', dataLanguage = None, className = ''''\<rparr>],
      tables = []\<rparr> []
   = ''# A'' @ [nl, nl] @ ''## S'' @ [nl, nl]
     @ ''### Code example 1'' @ [nl, nl] @ ''```'' @ [nl] @ ''a'' @ [nl] @ ''```'' @ [nl, nl]
     @ ''### Code example 2'' @ [nl, nl] @ ''```'' @ [nl] @ ''a'' @ [nl] @ ''```'' @ [nl, nl]
     @ ''### Code example 3'' @ [nl, nl] @ ''```'' @ [nl] @ ''b'' @ [nl] @ ''```'' @ [nl, nl]"
  by code_simp

text \<open>
  C4, amended: the two forms of the extraction differ. In the extraction with
  \<^verbatim>\<open>seenCode\<close>, the blocks of a story are the blocks of the candidate elements whose
  normalized text is not empty, and of the blocks with the same code text only the first
  stays, so no two blocks of a story have the same text. In the extraction of
  \<^verbatim>\<open>scrape-storybook.js\<close> every element gives a block, with an equal or an empty text
  too. In both, \<^verbatim>\<open>buildMarkdownForStory\<close> numbers the sections of the blocks it is given
  \<open>1, 2, ...\<close> in their order, the block at index \<open>i\<close> under \<^verbatim>\<open>Code example i + 1\<close>.
\<close>

theorem code_examples_unique_and_numbered:
  "extractCodeBlocks pg =
     keepFirstBy code (filter (\<lambda>b. code b \<noteq> []) (map blockOf (candidates pg)))
   \<and> distinct (map code (extractCodeBlocks pg))
   \<and> buildMarkdownForStory s \<lparr>codeBlocks = extractCodeBlocks pg, tables = ts\<rparr> lastTitleParts =
       concat (pathHeadings (titleParts s) lastTitleParts)
       @ headingLine (length (titleParts s) + 1) (storyName s)
       @ concat (map (\<lambda>i. codeSection (length (titleParts s) + 1) (i + 1) (extractCodeBlocks pg ! i))
                   [0..<length (extractCodeBlocks pg)])
       @ tableForEach (length (titleParts s) + 1) ts 0 []
   \<and> map code (mapCodeBlocks els) = map (\<lambda>el. normalize_str (textContent el)) els
   \<and> buildMarkdownForStory s \<lparr>codeBlocks = mapCodeBlocks els, tables = ts\<rparr> lastTitleParts =
       concat (pathHeadings (titleParts s) lastTitleParts)
       @ headingLine (length (titleParts s) + 1) (storyName s)
       @ concat (map (\<lambda>i. codeSection (length (titleParts s) + 1) (i + 1)
                            \<lparr>language = languageOf (els ! i),
                             code = normalize_str (textContent (els ! i))\<rparr>)
                   [0..<length els])
       @ tableForEach (length (titleParts s) + 1) ts 0 []"
proof -
  have d: "distinct (map code (extractCodeBlocks pg))"
    by (simp only: extractCodeBlocks_blocks distinct_keepFirst)
  have m: "map code (mapCodeBlocks els) = map (\<lambda>el. normalize_str (textContent el)) els"
    by (simp add: mapCodeBlocks_def)
  have e: "buildMarkdownForStory s \<lparr>codeBlocks = mapCodeBlocks els, tables = ts\<rparr> lastTitleParts =
       concat (pathHeadings (titleParts s) lastTitleParts)
       @ headingLine (length (titleParts s) + 1) (storyName s)
       @ concat (map (\<lambda>i. codeSection (length (titleParts s) + 1) (i + 1)
                            \<lparr>language = languageOf (els ! i),
                             code = normalize_str (textContent (els ! i))\<rparr>)
                   [0..<length els])
       @ tableForEach (length (titleParts s) + 1) ts 0 []"
  proof -
    have "map (\<lambda>i. codeSection (length (titleParts s) + 1) (i + 1) (mapCodeBlocks els ! i))
            [0..<length (mapCodeBlocks els)]
        = map (\<lambda>i. codeSection (length (titleParts s) + 1) (i + 1)
                       \<lparr>language = languageOf (els ! i),
                        code = normalize_str (textContent (els ! i))\<rparr>)
            [0..<length els]"
      unfolding mapCodeBlocks_def length_map
      by (rule map_cong[OF refl]) simp
    then show ?thesis
      using buildMarkdownForStory_code_sections[of s "mapCodeBlocks els" ts lastTitleParts]
      by simp
  qed
  show ?thesis
    using extractCodeBlocks_blocks[of pg] d m e
      buildMarkdownForStory_code_sections[of s "extractCodeBlocks pg" ts lastTitleParts]
    by blast
qed

theorem code_examples_unique_and_numbered_witness:
  "buildMarkdownForStory \<lparr>story_id = ''a--s'', name = Some ''S'', title = Some ''A''\<rparr>
     \<lparr>codeBlocks = extractCodeBlocks
         \<lparr>preCode = [\<lparr>node = 1, textContent = ''a'', dataLanguage = None, className = ''language-js''\<rparr>,
                     \<lparr>node = 2, textContent = ''a'', dataLanguage = None, className = ''''\<rparr>,
                     \<lparr>node = 3, textContent = ''b'', dataLanguage = None, className = ''''\<rparr>],
          docblockSourceCode = [], osContentPre = [], osContentCode = [], prePrismjs = [],
          codePrismjs = []\<rparr>,
      tables = []\<rparr> []
   = ''# A'' @ [nl, nl] @ ''## S'' @ [nl, nl]
     @ ''### Code example 1'' @ [nl, nl] @ ''```js'' @ [nl] @ ''a'' @ [nl] @ ''```'' @ [nl, nl]
     @ ''### Code example 2'' @ [nl, nl] @ ''```'' @ [nl] @ ''b'' @ [nl] @ ''```'' @ [nl, nl]
   \<and> buildMarkdownForStory \<lparr>story_id = ''a--s'', name = Some ''S'', title = Some ''A''\<rparr>
     \<lparr>codeBlocks = mapCodeBlocks
         [\<lparr>node = 1, textContent = '' b'', dataLanguage = Some ''ts'', className = ''''\<rparr>,
          \<lparr>node = 2, textContent = '''', dataLanguage = None, className = ''''\<rparr>],
      tables = []\<rparr> []
   = ''# A'' @ [nl, nl] @ ''## S'' @ [nl, nl]
     @ ''### Code example 1'' @ [nl, nl] @ ''```ts'' @ [nl] @ ''b'' @ [nl] @ ''```'' @ [nl, nl]
     @ ''### Code example 2'' @ [nl, nl] @ ''```'' @ [nl] @ '''' @ [nl] @ ''```'' @ [nl, nl]"
proof -
  let ?s = "\<lparr>story_id = ''a--s'', name = Some ''S'', title = Some ''A''\<rparr>"
  let ?pg = "\<lparr>preCode = [\<lparr>node = 1, textContent = ''a'', dataLanguage = None, className = ''language-js''\<rparr>,
                     \<lparr>node = 2, textContent = ''a'', dataLanguage = None, className = ''''\<rparr>,
                     \<lparr>node = 3, textContent = ''b'', dataLanguage = None, className = ''''\<rparr>],
          docblockSourceCode = [], osContentPre = [], osContentCode = [], prePrismjs = [],
          codePrismjs = []\<rparr>"
  let ?els = "[\<lparr>node = 1, textContent = '' b'', dataLanguage = Some ''ts'', className = ''''\<rparr>,
          \<lparr>node = 2, textContent = '''', dataLanguage = None, className = ''''\<rparr>]"
  have bs: "extractCodeBlocks ?pg = [\<lparr>language = ''js'', code = ''a''\<rparr>, \<lparr>language = [], code = ''b''\<rparr>]"
    by code_simp
  have new: "buildMarkdownForStory ?s \<lparr>codeBlocks = extractCodeBlocks ?pg, tables = []\<rparr> []
   = ''# A'' @ [nl, nl] @ ''## S'' @ [nl, nl]
     @ ''### Code example 1'' @ [nl, nl] @ ''```js'' @ [nl] @ ''a'' @ [nl] @ ''```'' @ [nl, nl]
     @ ''### Code example 2'' @ [nl, nl] @ ''```'' @ [nl] @ ''b'' @ [nl] @ ''```'' @ [nl, nl]"
    using code_examples_unique_and_numbered
            [of ?pg ?s "[]" "[]" ?els, THEN conjunct2, THEN conjunct2, THEN conjunct1]
    unfolding bs
    by (simp add: pathHeadings_def changedIndices_def titleParts_def storyName_def headingLine_def
        codeSection_def repeat_def toString.simps eval_nat_numeral)
  have old: "buildMarkdownForStory ?s \<lparr>codeBlocks = mapCodeBlocks ?els, tables = []\<rparr> []
   = ''# A'' @ [nl, nl] @ ''## S'' @ [nl, nl]
     @ ''### Code example 1'' @ [nl, nl] @ ''```ts'' @ [nl] @ ''b'' @ [nl] @ ''```'' @ [nl, nl]
     @ ''### Code example 2'' @ [nl, nl] @ ''```'' @ [nl] @ '''' @ [nl] @ ''```'' @ [nl, nl]"
    using code_examples_unique_and_numbered
            [of ?pg ?s "[]" "[]" ?els, THEN conjunct2, THEN conjunct2, THEN conjunct2, THEN conjunct2]
    by (simp add: pathHeadings_def changedIndices_def titleParts_def storyName_def headingLine_def
        codeSection_def repeat_def toString.simps eval_nat_numeral normalize_str_def trim_def
        replaceNbsp_def isWhiteSpace_def languageOf_def)
  show ?thesis
    using new old by blast
qed

section \<open>What the normalization of a code text changes\<close>

text \<open>
  C5, as claimed: the normalization only removes spaces and tabs before a line feed and
  at the end of the text, and keeps everything else as it is, the white space at the
  start too. The code at the text \<open>a\<close>, no-break space, \<open>b\<close>, which has nothing to
  trim: in both forms of the script the no-break space becomes a space. At \<open>a\<close>,
  carriage return, line feed, \<open>b\<close>, \<^verbatim>\<open>normalizeCode\<close> removes the carriage return. At a text
  with two spaces in front and a space before the line feed, \<^verbatim>\<open>normalize\<close> of
  \<^verbatim>\<open>scrape-storybook.js\<close> removes the spaces in front and keeps the space before the
  line feed.
\<close>

theorem normalization_replaces_and_strips:
  "normalizeCode [CHR ''a'', nbsp, CHR ''b''] = ''a b''
   \<and> normalize_str [CHR ''a'', nbsp, CHR ''b''] = ''a b''
   \<and> trimLineEnds [CHR ''a'', nbsp, CHR ''b''] = [CHR ''a'', nbsp, CHR ''b'']
   \<and> normalizeCode [CHR ''a'', cr, nl, CHR ''b''] = [CHR ''a'', nl, CHR ''b'']
   \<and> trimLineEnds [CHR ''a'', cr, nl, CHR ''b''] = [CHR ''a'', cr, nl, CHR ''b'']
   \<and> normalize_str (''  a '' @ [nl] @ ''b'') = ''a '' @ [nl] @ ''b''
   \<and> trimLineEnds (''  a '' @ [nl] @ ''b'') = ''  a'' @ [nl] @ ''b''"
  by (simp add: normalizeCode_def replaceNbsp_def isSpTab_def trimLineEnds_def stripRight_def
      normalize_str_def trim_def isWhiteSpace_def)

text \<open>
  C5, amended: the two forms of the normalization differ. \<^verbatim>\<open>normalizeCode\<close> replaces each
  no-break space by a space and removes a carriage return that stands directly before a
  line feed; of the text so obtained it removes the spaces and tabs at the end of every
  line, the last line included, and nothing else: the line feeds, those at the end of the
  text too, the white space at the start of a line and the white space inside a line
  stay. \<^verbatim>\<open>normalize\<close> of \<^verbatim>\<open>scrape-storybook.js\<close> replaces each no-break space by a space
  and removes the white space, line feeds included, at the start and at the end of the
  whole text, and nothing between them. The witness has a no-break space inside a line,
  one at the end of a line, and a carriage return before a line feed.
\<close>

theorem normalizeCode_trims_line_ends:
  "normalizeCode s = join [nl] (trimLines (split nl (nbspToSpace s)))
   \<and> (\<exists>a b. list_all isWhiteSpace a \<and> list_all isWhiteSpace b
            \<and> nbspToSpace s = a @ normalize_str s @ b)
   \<and> takeWhile isWhiteSpace (normalize_str s) = []
   \<and> takeWhile isWhiteSpace (rev (normalize_str s)) = []"
proof -
  have "normalizeCode s = join [nl] (trimLines (split nl (nbspToSpace s)))"
  proof (cases "s = []")
    case True
    then show ?thesis
      by (simp add: normalizeCode_def nbspToSpace_def stripRight_def)
  next
    case False
    then show ?thesis
      by (simp add: normalizeCode_def replace_trimLines replaceNbsp_split_join)
  qed
  moreover have "\<exists>a b. list_all isWhiteSpace a \<and> list_all isWhiteSpace b
            \<and> nbspToSpace s = a @ normalize_str s @ b"
    using trim_parts[of "nbspToSpace s"] by (simp add: normalize_str_def replaceNbsp_split_join)
  ultimately show ?thesis
    using trim_ends[of "nbspToSpace s"] by (simp add: normalize_str_def replaceNbsp_split_join)
qed

theorem normalizeCode_trims_line_ends_witness:
  "normalizeCode (''  x'' @ [nbsp] @ ''= 1;  '' @ [cr, nl, tab] @ ''y '' @ [nbsp, nl, nl])
     = ''  x = 1;'' @ [nl, tab] @ ''y'' @ [nl, nl]
   \<and> normalize_str (''  x'' @ [nbsp] @ ''= 1;  '' @ [cr, nl, tab] @ ''y '' @ [nbsp, nl, nl])
     = ''x = 1;  '' @ [cr, nl, tab] @ ''y''"
proof -
  have old: "normalize_str (''  x'' @ [nbsp] @ ''= 1;  '' @ [cr, nl, tab] @ ''y '' @ [nbsp, nl, nl])
     = ''x = 1;  '' @ [cr, nl, tab] @ ''y''"
    by (simp add: normalize_str_def trim_def replaceNbsp_def isWhiteSpace_def)
  show ?thesis
    using old normalizeCode_trims_line_ends
            [of "''  x'' @ [nbsp] @ ''= 1;  '' @ [cr, nl, tab] @ ''y '' @ [nbsp, nl, nl]",
             THEN conjunct1]
    by (simp add: nbspToSpace_def stripRight_def dropFinalCr_def isSpTab_def)
qed

section \<open>The leaf heading\<close>

text \<open>
  C6, as claimed: the text of the leaf heading is the story's name when the name is
  present. The code at a story whose name is present and empty: \<^verbatim>\<open>story.name || story.id\<close>
  takes the id.
\<close>

theorem empty_name_falls_back_to_id:
  "buildMarkdownForStory \<lparr>story_id = ''a--s'', name = Some '''', title = Some ''A''\<rparr>
     \<lparr>codeBlocks = [], tables = []\<rparr> []
   = ''# A'' @ [nl, nl] @ ''## a--s'' @ [nl, nl]"
  by (simp add: buildMarkdownForStory_def titleParts_def storyName_def titleLoop.simps repeat_def)

text \<open>
  C6, amended: for every story and every cursor the text returned is the path headings,
  then exactly one leaf heading at level \<open>length (titleParts s) + 1\<close>, then the content
  sections; the text of the leaf heading is the name when the name is present and not
  empty, and the id otherwise.
\<close>

theorem leaf_heading_always_emitted:
  "buildMarkdownForStory s c lastTitleParts =
     concat (pathHeadings (titleParts s) lastTitleParts)
     @ headingLine (length (titleParts s) + 1) (storyName s)
     @ contentSections (length (titleParts s) + 1) c
   \<and> storyName s = (case name s of None \<Rightarrow> story_id s
                                 | Some n \<Rightarrow> if n = [] then story_id s else n)"
  by (simp add: buildMarkdownForStory_parts storyName_def split: option.splits)

text \<open>
  The second story of the specification's closing example: its path is the cursor, no
  path heading is emitted, the leaf heading is.
\<close>

theorem leaf_heading_always_emitted_witness:
  "buildMarkdownForStory
     \<lparr>story_id = ''components-button--secondary'', name = Some ''Secondary'',
      title = Some ''Components/Button''\<rparr>
     \<lparr>codeBlocks = [], tables = []\<rparr> (split CHR ''/'' ''Components/Button'')
   = ''### Secondary'' @ [nl, nl]"
  using leaf_heading_always_emitted
          [of "\<lparr>story_id = ''components-button--secondary'', name = Some ''Secondary'',
                title = Some ''Components/Button''\<rparr>"
              "\<lparr>codeBlocks = [], tables = []\<rparr>" "split CHR ''/'' ''Components/Button''"]
  by (simp add: pathHeadings_def changedIndices_def titleParts_def headingLine_def repeat_def
      contentSections_def)

section \<open>Rows shorter and longer than the header\<close>

text \<open>
  C7. For every table of a story that is emitted (one whose header row, given or
  synthesized, is not empty), \<^verbatim>\<open>buildMarkdownForStory\<close> appends, after what it emits for
  the story and the tables before, the heading, the header row, the separator row and
  one line per row, in which a row with fewer cells than the header is filled on the
  right with empty cells up to the header's length and a row with as many cells or more
  is as it is; then come the tables after it.
\<close>

theorem rows_padded_to_header_count:
  assumes "tables c = before @ t # after" and "tableHeaders t \<noteq> []"
  shows "buildMarkdownForStory s c lastTitleParts =
           buildMarkdownForStory s (c\<lparr>tables := before\<rparr>) lastTitleParts
           @ headingLine (length (titleParts s) + 2) (''Props table '' @ toString (length before + 1))
           @ rowLine (tableHeaders t)
           @ rowLine (map (\<lambda>_. ''---'') (tableHeaders t))
           @ concat (map (\<lambda>row. rowLine
                            (if length row < length (tableHeaders t)
                             then row @ replicate (length (tableHeaders t) - length row) []
                             else row))
                         (rows t))
           @ [nl]
           @ tableForEach (length (titleParts s) + 1) after (length before + 1) []"
proof -
  have pad: "padLoop row n = (if length row < n then row @ replicate (n - length row) [] else row)"
    for row n
    by (simp add: padLoop_eq)
  show ?thesis
    using buildMarkdownForStory_table[OF assms(1), of s lastTitleParts]
          tableCallback_emitted[OF assms(2), of "length (titleParts s) + 1" "length before" "[]"]
    by (simp add: pad)
qed

theorem rows_padded_to_header_count_witness:
  "tables \<lparr>codeBlocks = [], tables = [\<lparr>headers = [''Name'', ''Type''], rows = [[''x''], [''y'', ''T'', ''more'']]\<rparr>]\<rparr>
     = [] @ \<lparr>headers = [''Name'', ''Type''], rows = [[''x''], [''y'', ''T'', ''more'']]\<rparr> # []
   \<and> tableHeaders \<lparr>headers = [''Name'', ''Type''], rows = [[''x''], [''y'', ''T'', ''more'']]\<rparr> \<noteq> []
   \<and> buildMarkdownForStory \<lparr>story_id = ''a--s'', name = Some ''S'', title = Some ''A''\<rparr>
        \<lparr>codeBlocks = [], tables = [\<lparr>headers = [''Name'', ''Type''], rows = [[''x''], [''y'', ''T'', ''more'']]\<rparr>]\<rparr> []
       = ''# A'' @ [nl, nl] @ ''## S'' @ [nl, nl]
         @ ''### Props table 1'' @ [nl, nl]
         @ ''| Name | Type |'' @ [nl]
         @ ''| --- | --- |'' @ [nl]
         @ ''| x |  |'' @ [nl]
         @ ''| y | T | more |'' @ [nl]
         @ [nl]"
proof -
  let ?t = "\<lparr>headers = [''Name'', ''Type''], rows = [[''x''], [''y'', ''T'', ''more'']]\<rparr>"
  let ?c = "\<lparr>codeBlocks = [], tables = [?t]\<rparr>"
  have h1: "tables ?c = [] @ ?t # []" by simp
  have h2: "tableHeaders ?t \<noteq> []" by (simp add: tableHeaders_def)
  have b: "buildMarkdownForStory \<lparr>story_id = ''a--s'', name = Some ''S'', title = Some ''A''\<rparr>
             (?c\<lparr>tables := []\<rparr>) [] = ''# A'' @ [nl, nl] @ ''## S'' @ [nl, nl]"
    by (simp add: buildMarkdownForStory_def titleParts_def storyName_def titleLoop.simps repeat_def)
  have tp: "length (titleParts \<lparr>story_id = ''a--s'', name = Some ''S'', title = Some ''A''\<rparr>) = 1"
    by (simp add: titleParts_def)
  show ?thesis
    using h1 h2
      rows_padded_to_header_count[OF h1 h2, of "\<lparr>story_id = ''a--s'', name = Some ''S'', title = Some ''A''\<rparr>" "[]"]
    unfolding b tp
    by (simp add: tableHeaders_def headingLine_def rowLine_def repeat_def toString.simps eval_nat_numeral)
qed

section \<open>Synthesized headers\<close>

text \<open>
  C8, as claimed: a table with empty headers and at least one row is emitted with the
  headers \<^verbatim>\<open>Column 1\<close> to \<^verbatim>\<open>Column n\<close>, \<open>n\<close> the number of cells of the first row. The
  code at a story with a table whose first row has no cell: no header is synthesized, the
  callback returns after the heading, and no row of the table is emitted.
\<close>

theorem empty_first_row_no_table:
  "buildMarkdownForStory \<lparr>story_id = ''a--s'', name = Some ''S'', title = Some ''A''\<rparr>
     \<lparr>codeBlocks = [], tables = [\<lparr>headers = [], rows = [[], [''a'', ''b'']]\<rparr>]\<rparr> []
   = ''# A'' @ [nl, nl] @ ''## S'' @ [nl, nl] @ ''### Props table 1'' @ [nl, nl]"
  by (simp add: buildMarkdownForStory_def titleParts_def storyName_def titleLoop.simps repeat_def
      tableCallback_def tableHeaders_def toString.simps)

text \<open>
  C8, amended: for a table of a story with empty headers whose first row has at least one
  cell, the headers are \<^verbatim>\<open>Column 1\<close> to \<^verbatim>\<open>Column n\<close>, \<open>n\<close> the number of cells of the first
  row, and \<^verbatim>\<open>buildMarkdownForStory\<close> emits the table with them: after what it emits for the
  story and the tables before come the heading, the row of these headers, the separator
  row and the rows, filled up to \<open>n\<close> cells; then come the tables after it.
\<close>

theorem headers_synthesized_from_first_row:
  assumes "tables c = before @ t # after"
    and "headers t = []" and "rows t = r # rs" and "r \<noteq> []"
  shows "tableHeaders t = map (\<lambda>i. ''Column '' @ toString (i + 1)) [0..<length r]
       \<and> buildMarkdownForStory s c lastTitleParts =
           buildMarkdownForStory s (c\<lparr>tables := before\<rparr>) lastTitleParts
           @ headingLine (length (titleParts s) + 2) (''Props table '' @ toString (length before + 1))
           @ rowLine (map (\<lambda>i. ''Column '' @ toString (i + 1)) [0..<length r])
           @ rowLine (map (\<lambda>i. ''---'') [0..<length r])
           @ concat (map (\<lambda>row. rowLine
                            (if length row < length r
                             then row @ replicate (length r - length row) []
                             else row))
                         (r # rs))
           @ [nl]
           @ tableForEach (length (titleParts s) + 1) after (length before + 1) []"
proof -
  have hs: "tableHeaders t = map (\<lambda>i. ''Column '' @ toString (i + 1)) [0..<length r]"
    using assms(2,3) by (simp add: tableHeaders_def)
  then have ne: "tableHeaders t \<noteq> []"
    using assms(4) by simp
  have pad: "padLoop row n = (if length row < n then row @ replicate (n - length row) [] else row)"
    for row n
    by (simp add: padLoop_eq)
  show ?thesis
    using buildMarkdownForStory_table[OF assms(1), of s lastTitleParts]
          tableCallback_emitted[OF ne, of "length (titleParts s) + 1" "length before" "[]"]
          hs assms(3)
    by (simp add: pad comp_def)
qed

theorem headers_synthesized_from_first_row_witness:
  "tables \<lparr>codeBlocks = [], tables = [\<lparr>headers = [], rows = [[''a'', ''b''], [''c'', ''d'']]\<rparr>]\<rparr>
     = [] @ \<lparr>headers = [], rows = [[''a'', ''b''], [''c'', ''d'']]\<rparr> # []
   \<and> headers \<lparr>headers = [], rows = [[''a'', ''b''], [''c'', ''d'']]\<rparr> = []
   \<and> rows \<lparr>headers = [], rows = [[''a'', ''b''], [''c'', ''d'']]\<rparr> = [''a'', ''b''] # [[''c'', ''d'']]
   \<and> [''a'', ''b''] \<noteq> []
   \<and> tableHeaders \<lparr>headers = [], rows = [[''a'', ''b''], [''c'', ''d'']]\<rparr> = [''Column 1'', ''Column 2'']
   \<and> buildMarkdownForStory \<lparr>story_id = ''a--s'', name = Some ''S'', title = Some ''A''\<rparr>
        \<lparr>codeBlocks = [], tables = [\<lparr>headers = [], rows = [[''a'', ''b''], [''c'', ''d'']]\<rparr>]\<rparr> []
       = ''# A'' @ [nl, nl] @ ''## S'' @ [nl, nl]
         @ ''### Props table 1'' @ [nl, nl]
         @ ''| Column 1 | Column 2 |'' @ [nl]
         @ ''| --- | --- |'' @ [nl]
         @ ''| a | b |'' @ [nl]
         @ ''| c | d |'' @ [nl]
         @ [nl]"
proof -
  let ?t = "\<lparr>headers = [], rows = [[''a'', ''b''], [''c'', ''d'']]\<rparr>"
  let ?c = "\<lparr>codeBlocks = [], tables = [?t]\<rparr>"
  have h1: "tables ?c = [] @ ?t # []" by simp
  have h2: "headers ?t = []" by simp
  have h3: "rows ?t = [''a'', ''b''] # [[''c'', ''d'']]" by simp
  have h4: "[''a'', ''b''] \<noteq> []" by simp
  have b: "buildMarkdownForStory \<lparr>story_id = ''a--s'', name = Some ''S'', title = Some ''A''\<rparr>
             (?c\<lparr>tables := []\<rparr>) [] = ''# A'' @ [nl, nl] @ ''## S'' @ [nl, nl]"
    by (simp add: buildMarkdownForStory_def titleParts_def storyName_def titleLoop.simps repeat_def)
  have tp: "length (titleParts \<lparr>story_id = ''a--s'', name = Some ''S'', title = Some ''A''\<rparr>) = 1"
    by (simp add: titleParts_def)
  show ?thesis
    using h1 h2 h3 h4
      headers_synthesized_from_first_row[OF h1 h2 h3 h4, of "\<lparr>story_id = ''a--s'', name = Some ''S'', title = Some ''A''\<rparr>" "[]"]
    unfolding b tp
    by (simp add: headingLine_def rowLine_def repeat_def toString.simps eval_nat_numeral)
qed

section \<open>A story without a title\<close>

text \<open>
  C9. The claim: a story record without \<^verbatim>\<open>title\<close> is processed without a crash, as a story
  with the empty path. \<^verbatim>\<open>buildMarkdownForStory\<close> does so (its \<^verbatim>\<open>story.title || ''\<close>),
  and returns the leaf heading at level 1; the next statement of \<^verbatim>\<open>main\<close>,
  \<^verbatim>\<open>story.title.split('/')\<close>, throws and the run ends with the error.
\<close>

theorem missing_title_ends_main:
  "buildMarkdownForStory \<lparr>story_id = ''s1'', name = Some ''S'', title = None\<rparr>
     \<lparr>codeBlocks = [], tables = []\<rparr> [] = ''# S'' @ [nl, nl]
   \<and> main ''http://sb.example''
         (Some [(\<lparr>story_id = ''s1'', name = Some ''S'', title = None\<rparr>,
                 Loaded \<lparr>codeBlocks = [], tables = []\<rparr>)])
       = Inl TypeError"
  by (simp add: main_def stripSlash_def buildMarkdownForStory_def titleParts_def storyName_def
      titleLoop.simps repeat_def)

section \<open>The cursor is the split title\<close>

text \<open>
  C10, as claimed: after a story whose title has an empty segment, a story with the same
  path gets path headings again. The code at the title \<^verbatim>\<open>A/\<close>, whose split has the empty
  segment at its end, followed by a story with the title \<^verbatim>\<open>A\<close>: the paths are equal and
  the second story gets its leaf heading only.
\<close>

theorem trailing_empty_segment_no_reemission:
  "storyLoop
     [(\<lparr>story_id = ''a--s1'', name = Some ''S1'', title = Some ''A/''\<rparr>,
       Loaded \<lparr>codeBlocks = [], tables = []\<rparr>),
      (\<lparr>story_id = ''a--s2'', name = Some ''S2'', title = Some ''A''\<rparr>,
       Loaded \<lparr>codeBlocks = [], tables = []\<rparr>)] [] []
   = Inr (''# A'' @ [nl, nl] @ ''## S1'' @ [nl, nl] @ ''## S2'' @ [nl, nl], [''A''])
   \<and> split CHR ''/'' ''A/'' = [''A'', '''']
   \<and> titleParts \<lparr>story_id = ''a--s2'', name = Some ''S2'', title = Some ''A''\<rparr>
     = titleParts \<lparr>story_id = ''a--s1'', name = Some ''S1'', title = Some ''A/''\<rparr>"
  by (simp add: buildMarkdownForStory_def titleParts_def storyName_def titleLoop.simps repeat_def)

text \<open>
  C10, amended: after a story whose page loaded the cursor is the split of its title,
  empty segments included, while the title parts that are compared drop the empty
  segments; the two are equal exactly when no segment is empty. A following story with
  the same title parts gets path headings again exactly when in the split title some empty
  segment is followed by a segment that is not empty (as in \<^verbatim>\<open>A//B\<close>); empty segments
  at the end alone (as in \<^verbatim>\<open>A/\<close>) cause none.
\<close>

theorem raw_cursor_reemits_headings:
  assumes "title s1 = Some t" and "titleParts s2 = titleParts s1"
  shows "storyLoop ((s1, Loaded c) # rest) markdown lastTitleParts
           = storyLoop rest (markdown @ buildMarkdownForStory s1 c lastTitleParts) (split CHR ''/'' t)
       \<and> titleParts s1 = filter (\<lambda>p. p \<noteq> []) (split CHR ''/'' t)
       \<and> (split CHR ''/'' t = titleParts s1) = ([] \<notin> set (split CHR ''/'' t))
       \<and> (titleLoop (titleParts s2) (split CHR ''/'' t) 0 [] \<noteq> [])
           = emptyBeforeNonEmpty (split CHR ''/'' t)"
proof -
  have tp: "titleParts s1 = filter (\<lambda>p. p \<noteq> []) (split CHR ''/'' t)"
    using assms(1) by (simp add: titleParts_def)
  have same: "(split CHR ''/'' t = titleParts s1) = ([] \<notin> set (split CHR ''/'' t))"
    unfolding tp using filter_id_conv[of "\<lambda>p. p \<noteq> []" "split CHR ''/'' t"] by auto
  have emit: "(titleLoop (titleParts s2) (split CHR ''/'' t) 0 [] \<noteq> [])
           = emptyBeforeNonEmpty (split CHR ''/'' t)"
    unfolding assms(2) tp by (simp only: titleLoop_emits changedIndices_raw)
  show ?thesis
    using assms(1) tp same emit by simp
qed

theorem raw_cursor_reemits_headings_witness:
  "title \<lparr>story_id = ''a-b--s1'', name = Some ''S1'', title = Some ''A//B''\<rparr> = Some ''A//B''
   \<and> titleParts \<lparr>story_id = ''a-b--s2'', name = Some ''S2'', title = Some ''A/B''\<rparr>
     = titleParts \<lparr>story_id = ''a-b--s1'', name = Some ''S1'', title = Some ''A//B''\<rparr>
   \<and> split CHR ''/'' ''A//B'' = [''A'', '''', ''B'']
   \<and> emptyBeforeNonEmpty (split CHR ''/'' ''A//B'')
   \<and> titleLoop (titleParts \<lparr>story_id = ''a-b--s2'', name = Some ''S2'', title = Some ''A/B''\<rparr>)
        (split CHR ''/'' ''A//B'') 0 [] \<noteq> []
   \<and> buildMarkdownForStory \<lparr>story_id = ''a-b--s2'', name = Some ''S2'', title = Some ''A/B''\<rparr>
        \<lparr>codeBlocks = [], tables = []\<rparr> (split CHR ''/'' ''A//B'')
     = ''## B'' @ [nl, nl] @ ''### S2'' @ [nl, nl]"
proof -
  have h1: "title \<lparr>story_id = ''a-b--s1'', name = Some ''S1'', title = Some ''A//B''\<rparr> = Some ''A//B''"
    by simp
  have h2: "titleParts \<lparr>story_id = ''a-b--s2'', name = Some ''S2'', title = Some ''A/B''\<rparr>
     = titleParts \<lparr>story_id = ''a-b--s1'', name = Some ''S1'', title = Some ''A//B''\<rparr>"
    by (simp add: titleParts_def)
  have e: "emptyBeforeNonEmpty (split CHR ''/'' ''A//B'')"
    by (simp add: emptyBeforeNonEmpty_def)
  have b: "buildMarkdownForStory \<lparr>story_id = ''a-b--s2'', name = Some ''S2'', title = Some ''A/B''\<rparr>
        \<lparr>codeBlocks = [], tables = []\<rparr> (split CHR ''/'' ''A//B'')
     = ''## B'' @ [nl, nl] @ ''### S2'' @ [nl, nl]"
    by (simp add: buildMarkdownForStory_def titleParts_def storyName_def titleLoop.simps repeat_def)
  have s: "split CHR ''/'' ''A//B'' = [''A'', '''', ''B'']"
    by simp
  show ?thesis
    using raw_cursor_reemits_headings[OF h1 h2] h1 h2 e b s by blast
qed

end
